theory Spec2Isabelle
  imports Main "HOL-Library.Sublist"
begin

section \<open>The multicast callback dispatcher \<open>del::event\<close> (delevent.h)\<close>

text \<open>
  \<open>event<R(Args...)>\<close> owns a vector of type-erased callables and offers
  \<open>attach\<close>, \<open>detach\<close>, \<open>detach_all\<close>, \<open>clear\<close> and \<open>operator()\<close>.
  The embedding follows the header member by member.

  \<^item> A template argument \<open>T\<close> is a \<open>type_id\<close>: two handles have the same
    dynamic type exactly when they are the same class template instantiated at the
    same \<open>T\<close> (\<open>F\<close> and \<open>F&\<close> are different instantiations).
  \<^item> The value of a plain callable (\<open>T m_Func\<close>), an object address
    (\<open>T *m_Obj\<close>) and a member-function pointer (\<open>R (T::*m_MemFunc)(Args...)\<close>)
    are pointer values; \<open>nullptr\<close> is the null one. \<open>operator==\<close> on them is
    equality of the values.
  \<^item> A pointer to a handle (\<open>base_callable *\<close>, \<open>unique_ptr<base_callable>\<close>)
    is an \<open>option\<close>: \<open>None\<close> is the null pointer.
  \<^item> Undefined behaviour of the C++ abstract machine is a value: a member
    that runs into it returns \<open>Inl\<close> of the kind of fault.
  \<^item> First come the handles with their members as read at one moment, the
    comparison and the removal members on a registry of such handles. Then
    come the handles as they are stored (by value or as a reference to the
    caller's variable), the program memory, all members run in a program, and
    invocation with callables that may return, throw or touch the dispatcher.
\<close>

subsection \<open>Data\<close>

type_synonym type_id = nat
type_synonym fn_ptr = nat
type_synonym obj_addr = nat
type_synonym mem_fn = nat

definition nullptr :: nat where
  "nullptr = 0"

text \<open>
  \<open>base_callable\<close> is abstract; its two derived class templates are the two
  constructors, each carrying its template argument and its private members.
\<close>

datatype base_callable =
    generic_callable_handle type_id fn_ptr
  | object_callable_handle type_id obj_addr mem_fn

datatype undefined_behaviour =
    Erase_past_the_end
  | Call_through_null
  | Null_record_dereference
  | Modified_during_iteration

record event =
  m_Callables :: "base_callable option list"

subsection \<open>Identity comparison\<close>

text \<open>
  \<open>dynamic_cast<generic_callable_handle<T> *>(bc)\<close> and
  \<open>dynamic_cast<object_callable_handle<T> *>(bc)\<close>: the pointer itself when it
  points to a handle of exactly that class, null otherwise (a null pointer casts
  to null).
\<close>

fun dynamic_cast_generic :: "type_id \<Rightarrow> base_callable option \<Rightarrow> (type_id \<times> fn_ptr) option" where
  "dynamic_cast_generic T (Some (generic_callable_handle U f)) =
     (if U = T then Some (U, f) else None)"
| "dynamic_cast_generic T (Some (object_callable_handle U obj memFunc)) = None"
| "dynamic_cast_generic T None = None"

fun dynamic_cast_object ::
  "type_id \<Rightarrow> base_callable option \<Rightarrow> (type_id \<times> obj_addr \<times> mem_fn) option" where
  "dynamic_cast_object T (Some (object_callable_handle U obj memFunc)) =
     (if U = T then Some (U, obj, memFunc) else None)"
| "dynamic_cast_object T (Some (generic_callable_handle U f)) = None"
| "dynamic_cast_object T None = None"

text \<open>
  The two overrides of \<open>compare\<close>. \<open>cc && ...\<close> is the case split on the
  result of the cast.
\<close>

fun compare :: "base_callable \<Rightarrow> base_callable option \<Rightarrow> bool" where
  "compare (generic_callable_handle T m_Func) bc =
     (case dynamic_cast_generic T bc of
        None \<Rightarrow> False
      | Some (U, cc_Func) \<Rightarrow> cc_Func = m_Func)"
| "compare (object_callable_handle T m_Obj m_MemFunc) bc =
     (case dynamic_cast_object T bc of
        None \<Rightarrow> False
      | Some (U, oc_Obj, oc_MemFunc) \<Rightarrow> oc_Obj = m_Obj \<and> oc_MemFunc = m_MemFunc)"

subsection \<open>The standard-library pieces the members use\<close>

text \<open>
  An iterator into the vector is an index; \<open>std::end\<close> is the length.
  \<open>std::find_if\<close> returns the position of the first element that satisfies the
  predicate, or the end.
\<close>

fun find_if :: "('a \<Rightarrow> bool) \<Rightarrow> 'a list \<Rightarrow> nat" where
  "find_if pred [] = 0"
| "find_if pred (x # xs) = (if pred x then 0 else Suc (find_if pred xs))"

text \<open>
  \<open>vector::erase(pos)\<close> requires a dereferenceable position: erasing the end
  iterator is undefined behaviour. \<open>vector::erase(first, last)\<close> requires a
  valid range; an empty one is allowed.
\<close>

definition erase :: "'a list \<Rightarrow> nat \<Rightarrow> undefined_behaviour + 'a list" where
  "erase v pos =
     (if pos < length v then Inr (take pos v @ drop (Suc pos) v)
      else Inl Erase_past_the_end)"

definition erase_range :: "'a list \<Rightarrow> nat \<Rightarrow> nat \<Rightarrow> undefined_behaviour + 'a list" where
  "erase_range v first_pos last_pos =
     (if first_pos \<le> last_pos \<and> last_pos \<le> length v
      then Inr (take first_pos v @ drop last_pos v)
      else Inl Erase_past_the_end)"

text \<open>
  \<open>std::remove_if\<close> on a vector of \<open>unique_ptr\<close>: after the first match, every
  later element that is kept is move-assigned to the write position, which
  leaves a null pointer behind; the new logical end is returned.
  \<^verbatim>\<open>
  first = find_if(first, last, p);
  if (first != last)
    for (i = first; ++i != last;)
      if (!p( *i )) *first++ = std::move( *i );
  return first;
  \<close>
\<close>

function remove_if_loop ::
  "('a option \<Rightarrow> bool) \<Rightarrow> 'a option list \<Rightarrow> nat \<Rightarrow> nat \<Rightarrow> 'a option list \<times> nat" where
  "remove_if_loop pred v first i =
     (if i < length v then
        (if \<not> pred (v ! i)
         then remove_if_loop pred (v[first := v ! i, i := None]) (Suc first) (Suc i)
         else remove_if_loop pred v first (Suc i))
      else (v, first))"
  by pat_completeness auto
termination
  by (relation "measure (\<lambda>(pred, v, first, i). length v - i)") auto

declare remove_if_loop.simps [simp del]

definition remove_if :: "('a option \<Rightarrow> bool) \<Rightarrow> 'a option list \<Rightarrow> 'a option list \<times> nat" where
  "remove_if pred v =
     (let first = find_if pred v
      in if first \<noteq> length v then remove_if_loop pred v first (Suc first)
         else (v, first))"

subsection \<open>Removal on a registry as read\<close>

text \<open>
  \<open>detach\<close>, \<open>detach_all\<close> and \<open>clear\<close> on a registry whose handles are given
  with their members as read at the moment of the call. The overloads for an
  (object, member function) pair carry the suffix \<open>_member\<close>. Each member
  returns \<open>*this\<close>: the dispatcher after the call.
\<close>

definition compPred :: "base_callable \<Rightarrow> base_callable option \<Rightarrow> bool" where
  "compPred temp callable = compare temp callable"

definition detach_impl :: "base_callable \<Rightarrow> event \<Rightarrow> undefined_behaviour + event" where
  "detach_impl temp e =
     (case erase (m_Callables e) (find_if (compPred temp) (m_Callables e)) of
        Inl ub \<Rightarrow> Inl ub
      | Inr v \<Rightarrow> Inr (e\<lparr>m_Callables := v\<rparr>))"

definition detach_all_impl :: "base_callable \<Rightarrow> event \<Rightarrow> undefined_behaviour + event" where
  "detach_all_impl temp e =
     (case remove_if (compPred temp) (m_Callables e) of
        (v, new_end) \<Rightarrow>
          (case erase_range v new_end (length v) of
             Inl ub \<Rightarrow> Inl ub
           | Inr v' \<Rightarrow> Inr (e\<lparr>m_Callables := v'\<rparr>)))"

definition detach :: "type_id \<Rightarrow> fn_ptr \<Rightarrow> event \<Rightarrow> undefined_behaviour + event" where
  "detach T callback e = detach_impl (generic_callable_handle T callback) e"

definition detach_member ::
  "type_id \<Rightarrow> obj_addr \<Rightarrow> mem_fn \<Rightarrow> event \<Rightarrow> undefined_behaviour + event" where
  "detach_member T obj memFn e = detach_impl (object_callable_handle T obj memFn) e"

definition detach_all :: "type_id \<Rightarrow> fn_ptr \<Rightarrow> event \<Rightarrow> undefined_behaviour + event" where
  "detach_all T callback e = detach_all_impl (generic_callable_handle T callback) e"

definition detach_all_member ::
  "type_id \<Rightarrow> obj_addr \<Rightarrow> mem_fn \<Rightarrow> event \<Rightarrow> undefined_behaviour + event" where
  "detach_all_member T obj memFn e = detach_all_impl (object_callable_handle T obj memFn) e"

definition clear :: "event \<Rightarrow> event" where
  "clear e = e\<lparr>m_Callables := []\<rparr>"

subsection \<open>Handles as they are stored\<close>

text \<open>
  \<open>attach\<close>, \<open>detach\<close> and \<open>detach_all\<close> take \<open>T &&callback\<close> with \<open>T\<close>
  deduced. For an rvalue of a callable type \<open>X\<close> it is \<open>T = X\<close>, and
  \<open>T m_Func\<close> holds the value. For an lvalue it is \<open>T = X&\<close>, and \<open>T m_Func\<close>
  is a reference to the caller's variable: the handle follows every later
  assignment to that variable. \<open>X\<close> and \<open>X&\<close> are different template
  arguments, so the two handles are of different classes.

  The caller's variables that hold callables are part of the program's memory
  (\<open>variables\<close>); they are taken to outlive the dispatcher. \<open>state\<close> is the rest
  of the memory. The members of \<open>base_callable\<close> above are the members of a
  handle as read at one moment: \<open>read_handle\<close> reads them.
\<close>

type_synonym var_addr = nat

datatype argument = Rvalue fn_ptr | Lvalue var_addr

datatype m_Func_member = Held fn_ptr | Reference var_addr

datatype stored_callable =
    stored_generic type_id m_Func_member
  | stored_object type_id obj_addr mem_fn

record 'w memory =
  variables :: "var_addr \<Rightarrow> fn_ptr"
  state :: 'w

record 'w program =
  registry :: "stored_callable option list"
  memory :: "'w memory"

text \<open>
  Template argument deduction: the callable types are numbered, type \<open>X\<close> has
  the identifier \<open>2 * X\<close> and \<open>X&\<close> the identifier \<open>2 * X + 1\<close>.
  \<open>new_generic\<close> is the constructor of \<open>generic_callable_handle<T>\<close>,
  \<open>m_Func{std::forward<C>(c)}\<close>.
\<close>

fun deduced_T :: "nat \<Rightarrow> argument \<Rightarrow> type_id" where
  "deduced_T X (Rvalue f) = 2 * X"
| "deduced_T X (Lvalue x) = 2 * X + 1"

fun forwarded :: "argument \<Rightarrow> m_Func_member" where
  "forwarded (Rvalue f) = Held f"
| "forwarded (Lvalue x) = Reference x"

definition new_generic :: "nat \<Rightarrow> argument \<Rightarrow> stored_callable" where
  "new_generic X callback = stored_generic (deduced_T X callback) (forwarded callback)"

fun m_Func_value :: "(var_addr \<Rightarrow> fn_ptr) \<Rightarrow> m_Func_member \<Rightarrow> fn_ptr" where
  "m_Func_value vars (Held f) = f"
| "m_Func_value vars (Reference x) = vars x"

fun read_handle :: "(var_addr \<Rightarrow> fn_ptr) \<Rightarrow> stored_callable \<Rightarrow> base_callable" where
  "read_handle vars (stored_generic T m) = generic_callable_handle T (m_Func_value vars m)"
| "read_handle vars (stored_object T obj memFunc) = object_callable_handle T obj memFunc"

text \<open>\<open>callable.get()\<close>, with the members of the handle it points to read now.\<close>

definition get_now ::
  "(var_addr \<Rightarrow> fn_ptr) \<Rightarrow> stored_callable option \<Rightarrow> base_callable option" where
  "get_now vars callable = map_option (read_handle vars) callable"

definition as_read :: "'w program \<Rightarrow> event" where
  "as_read p = \<lparr>m_Callables = map (get_now (variables (memory p))) (registry p)\<rparr>"

subsection \<open>The members, run in a program\<close>

text \<open>
  Each member takes the program state and returns it updated (\<open>*this\<close> is the
  \<open>registry\<close> component). The overloads for an (object, member function) pair
  carry \<open>_member\<close>. The probe \<open>temp\<close> of \<open>detach\<close> and \<open>detach_all\<close> is a
  handle on the stack, built from the argument like an attached one.
\<close>

definition attach_in :: "nat \<Rightarrow> argument \<Rightarrow> 'w program \<Rightarrow> 'w program" where
  "attach_in X callback p = p\<lparr>registry := registry p @ [Some (new_generic X callback)]\<rparr>"

definition attach_member_in ::
  "type_id \<Rightarrow> obj_addr \<Rightarrow> mem_fn \<Rightarrow> 'w program \<Rightarrow> 'w program" where
  "attach_member_in T obj memFn p =
     p\<lparr>registry := registry p @ [Some (stored_object T obj memFn)]\<rparr>"

definition compPred_in ::
  "stored_callable \<Rightarrow> 'w program \<Rightarrow> stored_callable option \<Rightarrow> bool" where
  "compPred_in temp p callable =
     compare (read_handle (variables (memory p)) temp) (get_now (variables (memory p)) callable)"

definition detach_impl_in ::
  "stored_callable \<Rightarrow> 'w program \<Rightarrow> undefined_behaviour + 'w program" where
  "detach_impl_in temp p =
     (case erase (registry p) (find_if (compPred_in temp p) (registry p)) of
        Inl ub \<Rightarrow> Inl ub
      | Inr v \<Rightarrow> Inr (p\<lparr>registry := v\<rparr>))"

definition detach_all_impl_in ::
  "stored_callable \<Rightarrow> 'w program \<Rightarrow> undefined_behaviour + 'w program" where
  "detach_all_impl_in temp p =
     (case remove_if (compPred_in temp p) (registry p) of
        (v, new_end) \<Rightarrow>
          (case erase_range v new_end (length v) of
             Inl ub \<Rightarrow> Inl ub
           | Inr v' \<Rightarrow> Inr (p\<lparr>registry := v'\<rparr>)))"

definition detach_in :: "nat \<Rightarrow> argument \<Rightarrow> 'w program \<Rightarrow> undefined_behaviour + 'w program" where
  "detach_in X callback p = detach_impl_in (new_generic X callback) p"

definition detach_member_in ::
  "type_id \<Rightarrow> obj_addr \<Rightarrow> mem_fn \<Rightarrow> 'w program \<Rightarrow> undefined_behaviour + 'w program" where
  "detach_member_in T obj memFn p = detach_impl_in (stored_object T obj memFn) p"

definition detach_all_in ::
  "nat \<Rightarrow> argument \<Rightarrow> 'w program \<Rightarrow> undefined_behaviour + 'w program" where
  "detach_all_in X callback p = detach_all_impl_in (new_generic X callback) p"

definition detach_all_member_in ::
  "type_id \<Rightarrow> obj_addr \<Rightarrow> mem_fn \<Rightarrow> 'w program \<Rightarrow> undefined_behaviour + 'w program" where
  "detach_all_member_in T obj memFn p = detach_all_impl_in (stored_object T obj memFn) p"

definition clear_in :: "'w program \<Rightarrow> 'w program" where
  "clear_in p = p\<lparr>registry := []\<rparr>"

subsection \<open>Invocation\<close>

text \<open>
  What a call does is not in the header: it is given by the callables of the
  program that uses the dispatcher. \<open>call_fn env T f\<close> is the call
  \<open>m_Func(std::forward<Args>(args)...)\<close> of a plain callable of type \<open>T\<close> and
  value \<open>f\<close>, \<open>call_mem env T obj memFunc\<close> the call
  \<open>(m_Obj->*m_MemFunc)(std::forward<Args>(args)...)\<close>. The arguments reach the
  callee as forwarded references to the caller's argument objects, so a call
  takes the current value \<open>'a\<close> of those objects and the memory. It returns a
  value and leaves new values in both, or it throws, having changed both, or it
  attaches to, detaches from or clears the dispatcher that is calling it.
\<close>

datatype ('r, 'a, 'w) outcome =
    Returns 'r 'a "'w memory"
  | Throws 'a "'w memory"
  | Mutates_dispatcher

record ('a, 'w, 'r) callees =
  call_fn :: "type_id \<Rightarrow> fn_ptr \<Rightarrow> 'a \<Rightarrow> 'w memory \<Rightarrow> ('r, 'a, 'w) outcome"
  call_mem :: "type_id \<Rightarrow> obj_addr \<Rightarrow> mem_fn \<Rightarrow> 'a \<Rightarrow> 'w memory \<Rightarrow> ('r, 'a, 'w) outcome"

text \<open>
  The two overrides of \<open>invoke\<close>. A call through a null function pointer, a
  null member-function pointer or a null object pointer is undefined behaviour.
\<close>

fun invoke ::
  "('a, 'w, 'r) callees \<Rightarrow> base_callable \<Rightarrow> 'a \<Rightarrow> 'w memory
     \<Rightarrow> undefined_behaviour + ('r, 'a, 'w) outcome" where
  "invoke env (generic_callable_handle T m_Func) a m =
     (if m_Func = nullptr then Inl Call_through_null
      else Inr (call_fn env T m_Func a m))"
| "invoke env (object_callable_handle T m_Obj m_MemFunc) a m =
     (if m_Obj = nullptr \<or> m_MemFunc = nullptr then Inl Call_through_null
      else Inr (call_mem env T m_Obj m_MemFunc a m))"

text \<open>
  \<open>operator()\<close>: the range-based \<open>for\<close> over \<open>m_Callables\<close>, front to back.
  \<open>callable->invoke(...)\<close> dereferences the \<open>unique_ptr\<close>, reads the handle's
  members at that moment and drops the returned value. An exception leaves the
  loop and \<open>operator()\<close>: the records after the throwing one are not invoked.
  After a callee has changed the vector the loop's iterators are invalid, and
  going on is undefined behaviour.
\<close>

datatype 'a ending = Completed 'a | Propagated 'a

fun for_each_callable ::
  "('a, 'w, 'r) callees \<Rightarrow> stored_callable option list \<Rightarrow> 'a \<Rightarrow> 'w memory
     \<Rightarrow> undefined_behaviour + ('a ending \<times> 'w memory)" where
  "for_each_callable env [] a m = Inr (Completed a, m)"
| "for_each_callable env (callable # rest) a m =
     (case callable of
        None \<Rightarrow> Inl Null_record_dereference
      | Some h \<Rightarrow>
          (case invoke env (read_handle (variables m) h) a m of
             Inl ub \<Rightarrow> Inl ub
           | Inr (Returns r a' m') \<Rightarrow> for_each_callable env rest a' m'
           | Inr (Throws a' m') \<Rightarrow> Inr (Propagated a', m')
           | Inr Mutates_dispatcher \<Rightarrow> Inl Modified_during_iteration))"

definition operator_call ::
  "('a, 'w, 'r) callees \<Rightarrow> 'a \<Rightarrow> 'w program
     \<Rightarrow> undefined_behaviour + ('a ending \<times> 'w program)" where
  "operator_call env a p =
     (case for_each_callable env (registry p) a (memory p) of
        Inl ub \<Rightarrow> Inl ub
      | Inr (how, m') \<Rightarrow> Inr (how, p\<lparr>memory := m'\<rparr>))"

subsection \<open>Notions used in the statements\<close>

text \<open>
  \<open>earliest_match temp v i\<close>: position \<open>i\<close> holds the first record of \<open>v\<close>,
  in attachment order, that the probe \<open>temp\<close> compares equal to.
\<close>

definition earliest_match :: "base_callable \<Rightarrow> base_callable option list \<Rightarrow> nat \<Rightarrow> bool" where
  "earliest_match temp v i \<longleftrightarrow>
     i < length v \<and> compare temp (v ! i) \<and> (\<forall>j<i. \<not> compare temp (v ! j))"

text \<open>
  A record has a target when a plain record holds a non-null callable and a
  bound-method record a non-null object address and a non-null member-function
  pointer. \<open>targets_non_null p\<close>: no slot of the registry is a null
  \<open>unique_ptr\<close>, and every record, read now, has a target.
\<close>

fun has_target :: "base_callable \<Rightarrow> bool" where
  "has_target (generic_callable_handle T m_Func) \<longleftrightarrow> m_Func \<noteq> nullptr"
| "has_target (object_callable_handle T m_Obj m_MemFunc) \<longleftrightarrow>
     m_Obj \<noteq> nullptr \<and> m_MemFunc \<noteq> nullptr"


text \<open>
  \<open>records_of p\<close>: the records of the registry in attachment order, each as
  read now (null slots left out).
\<close>

definition records_of :: "'w program \<Rightarrow> base_callable list" where
  "records_of p = List.map_filter (get_now (variables (memory p))) (registry p)"

text \<open>
  \<open>call env c\<close> is the call that \<open>invoke\<close> makes for the record \<open>c\<close>, and
  \<open>applied env c (a, m)\<close> what it leaves in the argument objects and the memory.
  \<open>returns_normally env c\<close>: called in any state, the callable of \<open>c\<close> returns
  (it neither throws nor touches the dispatcher) and leaves the caller's
  callable variables as they were.
\<close>

fun call ::
  "('a, 'w, 'r) callees \<Rightarrow> base_callable \<Rightarrow> 'a \<Rightarrow> 'w memory \<Rightarrow> ('r, 'a, 'w) outcome" where
  "call env (generic_callable_handle T m_Func) a m = call_fn env T m_Func a m"
| "call env (object_callable_handle T m_Obj m_MemFunc) a m = call_mem env T m_Obj m_MemFunc a m"

fun left_by :: "('r, 'a, 'w) outcome \<Rightarrow> 'a \<times> 'w memory \<Rightarrow> 'a \<times> 'w memory" where
  "left_by (Returns r a' m') x = (a', m')"
| "left_by (Throws a' m') x = (a', m')"
| "left_by Mutates_dispatcher x = x"

definition applied ::
  "('a, 'w, 'r) callees \<Rightarrow> 'a \<times> 'w memory \<Rightarrow> base_callable \<Rightarrow> 'a \<times> 'w memory" where
  "applied env x c = left_by (call env c (fst x) (snd x)) x"

definition returns_normally :: "('a, 'w, 'r) callees \<Rightarrow> base_callable \<Rightarrow> bool" where
  "returns_normally env c \<longleftrightarrow>
     (\<forall>a m. \<exists>r a' m'. call env c a m = Returns r a' m' \<and> variables m' = variables m)"

definition sound_record ::
  "('a, 'w, 'r) callees \<Rightarrow> (var_addr \<Rightarrow> fn_ptr) \<Rightarrow> stored_callable option \<Rightarrow> bool" where
  "sound_record env vars callable =
     (case callable of
        None \<Rightarrow> False
      | Some h \<Rightarrow> has_target (read_handle vars h) \<and> returns_normally env (read_handle vars h))"

text \<open>
  \<open>after_call p out\<close>: how \<open>operator()\<close> ends, in the program \<open>p\<close>, when the
  call of the last record of the registry has the outcome \<open>out\<close>.
\<close>

fun after_call ::
  "'w program \<Rightarrow> ('r, 'a, 'w) outcome \<Rightarrow> undefined_behaviour + ('a ending \<times> 'w program)" where
  "after_call p (Returns r a' m') = Inr (Completed a', p\<lparr>memory := m'\<rparr>)"
| "after_call p (Throws a' m') = Inr (Propagated a', p\<lparr>memory := m'\<rparr>)"
| "after_call p Mutates_dispatcher = Inl Modified_during_iteration"


text \<open>
  \<open>with_results g env\<close>: the same callables, except that each returns
  \<open>g r\<close> where it returned \<open>r\<close>.
\<close>

fun with_result :: "('r \<Rightarrow> 'q) \<Rightarrow> ('r, 'a, 'w) outcome \<Rightarrow> ('q, 'a, 'w) outcome" where
  "with_result g (Returns r a' m') = Returns (g r) a' m'"
| "with_result g (Throws a' m') = Throws a' m'"
| "with_result g Mutates_dispatcher = Mutates_dispatcher"

definition with_results ::
  "('r \<Rightarrow> 'q) \<Rightarrow> ('a, 'w, 'r) callees \<Rightarrow> ('a, 'w, 'q) callees" where
  "with_results g env =
     \<lparr>call_fn = (\<lambda>T f a m. with_result g (call_fn env T f a m)),
      call_mem = (\<lambda>T obj memFunc a m. with_result g (call_mem env T obj memFunc a m))\<rparr>"

section \<open>Properties\<close>

subsection \<open>Identity comparison\<close>

lemma compare_iff: "compare temp bc \<longleftrightarrow> bc = Some temp"
proof (cases temp)
  case (generic_callable_handle T f)
  then show ?thesis
    by (cases "(T, bc)" rule: dynamic_cast_generic.cases) auto
next
  case (object_callable_handle T obj memFunc)
  then show ?thesis
    by (cases "(T, bc)" rule: dynamic_cast_object.cases) auto
qed

text \<open>
  C5. A plain-callable record and a bound-method record never compare equal, in
  either argument order. \<open>compare\<close> is true only for a record of the same
  concrete class whose members are equal: for two plain records the same \<open>T\<close>
  and equal \<open>m_Func\<close>, for two bound-method records the same \<open>T\<close>, equal
  \<open>m_Obj\<close> and equal \<open>m_MemFunc\<close>; against a null pointer it is false.
\<close>

theorem compare_across_variants:
  "compare (generic_callable_handle T f) (Some (object_callable_handle U obj memFunc)) = False
   \<and> compare (object_callable_handle U obj memFunc) (Some (generic_callable_handle T f)) = False
   \<and> compare (generic_callable_handle T f) (Some (generic_callable_handle T' f'))
       = (T' = T \<and> f' = f)
   \<and> compare (object_callable_handle U obj memFunc) (Some (object_callable_handle U' obj' memFunc'))
       = (U' = U \<and> obj' = obj \<and> memFunc' = memFunc)
   \<and> compare temp None = False"
  by (cases temp) simp_all

subsection \<open>The standard algorithms\<close>

lemma find_if_le: "find_if pred xs \<le> length xs"
  by (induction xs) auto

lemma find_if_lt_iff: "find_if pred xs < length xs \<longleftrightarrow> (\<exists>x\<in>set xs. pred x)"
  by (induction xs) auto

lemma find_if_hit: "find_if pred xs < length xs \<Longrightarrow> pred (xs ! find_if pred xs)"
  by (induction xs) auto

lemma find_if_first: "j < find_if pred xs \<Longrightarrow> \<not> pred (xs ! j)"
proof (induction xs arbitrary: j)
  case Nil
  then show ?case by simp
next
  case (Cons x xs)
  then show ?case by (cases j) (auto split: if_splits)
qed

lemma find_if_filter: "filter (\<lambda>x. \<not> pred x) (take (find_if pred xs) xs) = take (find_if pred xs) xs"
  by (induction xs) auto

lemma remove_if_loop_inv:
  "first < i \<Longrightarrow> i \<le> length v \<Longrightarrow> remove_if_loop pred v first i = (v', n) \<Longrightarrow>
   length v' = length v \<and> n \<le> length v \<and> take n v' = take first v @ filter (\<lambda>x. \<not> pred x) (drop i v)"
proof (induction pred v first i arbitrary: v' n rule: remove_if_loop.induct)
  case (1 pred v first i)
  show ?case
  proof (cases "i < length v")
    case False
    with 1(5) have "v' = v" "n = first"
      by (simp_all add: remove_if_loop.simps [of pred v first i])
    with False 1(3,4) show ?thesis by simp
  next
    case True
    note lt = True
    show ?thesis
    proof (cases "pred (v ! i)")
      case True
      with lt 1(5) have "remove_if_loop pred v first (Suc i) = (v', n)"
        by (simp add: remove_if_loop.simps [of pred v first i])
      from 1(2)[OF lt _ _ _ this] True lt 1(3)
      have "length v' = length v \<and> n \<le> length v \<and> take n v' = take first v @ filter (\<lambda>x. \<not> pred x) (drop (Suc i) v)"
        by simp
      moreover have "drop i v = v ! i # drop (Suc i) v" using lt by (simp add: Cons_nth_drop_Suc)
      ultimately show ?thesis using True by simp
    next
      case False
      let ?w = "v[first := v ! i, i := None]"
      from False lt 1(5) have "remove_if_loop pred ?w (Suc first) (Suc i) = (v', n)"
        by (simp add: remove_if_loop.simps [of pred v first i])
      from 1(1)[OF lt False _ _ this] lt 1(3)
      have *: "length v' = length v \<and> n \<le> length v \<and>
        take n v' = take (Suc first) ?w @ filter (\<lambda>x. \<not> pred x) (drop (Suc i) ?w)"
        by simp
      have d: "drop (Suc i) ?w = drop (Suc i) v" using 1(3) by simp
      have t: "take (Suc first) ?w = take first v @ [v ! i]"
        using lt 1(3) by (simp add: take_Suc_conv_app_nth)
      have "drop i v = v ! i # drop (Suc i) v" using lt by (simp add: Cons_nth_drop_Suc)
      with * d t False show ?thesis by simp
    qed
  qed
qed

lemma remove_if_filter:
  "remove_if pred v = (v', n) \<Longrightarrow>
   length v' = length v \<and> n \<le> length v \<and> take n v' = filter (\<lambda>x. \<not> pred x) v"
proof (cases "find_if pred v = length v")
  case True
  assume "remove_if pred v = (v', n)"
  with True have eq: "v' = v" "n = length v" by (auto simp: remove_if_def)
  have "\<not> (\<exists>x\<in>set v. pred x)" using True find_if_lt_iff [of pred v] by simp
  then have "filter (\<lambda>x. \<not> pred x) v = v" by (simp add: filter_id_conv)
  with eq show ?thesis by simp
next
  case False
  let ?k = "find_if pred v"
  assume "remove_if pred v = (v', n)"
  with False have loop: "remove_if_loop pred v ?k (Suc ?k) = (v', n)"
    by (simp add: remove_if_def Let_def)
  from False have lt: "?k < length v" using find_if_le [of pred v] by simp
  then have hit: "pred (v ! ?k)" by (rule find_if_hit)
  have "length v' = length v \<and> n \<le> length v \<and>
        take n v' = take ?k v @ filter (\<lambda>x. \<not> pred x) (drop (Suc ?k) v)"
    using remove_if_loop_inv [OF _ _ loop] lt by simp
  moreover have "filter (\<lambda>x. \<not> pred x) v
      = filter (\<lambda>x. \<not> pred x) (take ?k v) @ filter (\<lambda>x. \<not> pred x) (drop ?k v)"
    using filter_append [of "\<lambda>x. \<not> pred x" "take ?k v" "drop ?k v"] by simp
  moreover have "drop ?k v = v ! ?k # drop (Suc ?k) v"
    using lt by (simp add: Cons_nth_drop_Suc)
  ultimately show ?thesis using hit find_if_filter [of pred v] by simp
qed

lemma detach_all_impl_filter:
  "detach_all_impl temp e = Inr (e\<lparr>m_Callables := filter (\<lambda>c. \<not> compare temp c) (m_Callables e)\<rparr>)"
proof -
  obtain v' n where r: "remove_if (compPred temp) (m_Callables e) = (v', n)"
    by (cases "remove_if (compPred temp) (m_Callables e)")
  from remove_if_filter [OF r]
  have "n \<le> length v'" and "take n v' = filter (\<lambda>c. \<not> compPred temp c) (m_Callables e)"
    by simp_all
  then show ?thesis
    using r by (simp add: detach_all_impl_def erase_range_def compPred_def)
qed



subsection \<open>Removing records\<close>

lemma earliest_match_unique:
  assumes "earliest_match temp v i" and "earliest_match temp v k"
  shows "i = k"
proof (rule ccontr)
  assume "i \<noteq> k"
  then consider "i < k" | "k < i" by arith
  then show False
    using assms by cases (auto simp: earliest_match_def)
qed

lemma detach_impl_earliest:
  assumes "\<exists>c\<in>set (m_Callables e). compare temp c"
  shows "\<exists>i. earliest_match temp (m_Callables e) i \<and>
             detach_impl temp e
               = Inr (e\<lparr>m_Callables := take i (m_Callables e) @ drop (Suc i) (m_Callables e)\<rparr>)"
proof -
  let ?v = "m_Callables e"
  let ?i = "find_if (compPred temp) ?v"
  from assms have lt: "?i < length ?v"
    by (simp add: find_if_lt_iff compPred_def)
  have "compPred temp (?v ! ?i)" using lt by (rule find_if_hit)
  moreover have "\<forall>j<?i. \<not> compPred temp (?v ! j)" by (simp add: find_if_first)
  ultimately have "earliest_match temp ?v ?i"
    using lt by (simp add: earliest_match_def compPred_def)
  moreover have "detach_impl temp e = Inr (e\<lparr>m_Callables := take ?i ?v @ drop (Suc ?i) ?v\<rparr>)"
    using lt by (simp add: detach_impl_def erase_def)
  ultimately show ?thesis by blast
qed

lemma detach_impl_no_match:
  assumes "\<not> (\<exists>c\<in>set (m_Callables e). compare temp c)"
  shows "detach_impl temp e = Inl Erase_past_the_end"
proof -
  from assms have "\<not> find_if (compPred temp) (m_Callables e) < length (m_Callables e)"
    by (simp add: find_if_lt_iff compPred_def)
  then show ?thesis by (simp add: detach_impl_def erase_def)
qed

lemma detach_all_impl_no_match:
  assumes "\<not> (\<exists>c\<in>set (m_Callables e). compare temp c)"
  shows "detach_all_impl temp e = Inr e"
proof -
  from assms have "filter (\<lambda>c. \<not> compare temp c) (m_Callables e) = m_Callables e"
    by (simp add: filter_id_conv)
  then show ?thesis by (simp add: detach_all_impl_filter)
qed


text \<open>
  C2. When the registry holds at least one record that the probe of \<open>detach\<close>
  compares equal to, \<open>detach\<close> (either overload) completes and removes exactly
  one record, the earliest-attached matching one: the records before it and the
  records after it, later duplicates included, stay in their order.
\<close>

theorem detach_removes_earliest_match:
  "((\<exists>c\<in>set (m_Callables e). compare (generic_callable_handle T callback) c) \<longrightarrow>
      (\<exists>i. earliest_match (generic_callable_handle T callback) (m_Callables e) i \<and>
           detach T callback e
             = Inr (e\<lparr>m_Callables := take i (m_Callables e) @ drop (Suc i) (m_Callables e)\<rparr>)))
   \<and> ((\<exists>c\<in>set (m_Callables e). compare (object_callable_handle U obj memFn) c) \<longrightarrow>
      (\<exists>i. earliest_match (object_callable_handle U obj memFn) (m_Callables e) i \<and>
           detach_member U obj memFn e
             = Inr (e\<lparr>m_Callables := take i (m_Callables e) @ drop (Suc i) (m_Callables e)\<rparr>)))"
  unfolding detach_def detach_member_def
  using detach_impl_earliest [of e] by blast

theorem detach_removes_earliest_match_witness:
  "(\<exists>c\<in>set [Some (generic_callable_handle 1 8), Some (generic_callable_handle 1 7),
                Some (object_callable_handle 2 5 6), Some (generic_callable_handle 1 7),
                Some (object_callable_handle 2 5 6)].
       compare (generic_callable_handle 1 7) c)
   \<and> (\<exists>c\<in>set [Some (generic_callable_handle 1 8), Some (generic_callable_handle 1 7),
                Some (object_callable_handle 2 5 6), Some (generic_callable_handle 1 7),
                Some (object_callable_handle 2 5 6)].
       compare (object_callable_handle 2 5 6) c)
   \<and> detach 1 7 \<lparr>m_Callables =
         [Some (generic_callable_handle 1 8), Some (generic_callable_handle 1 7),
          Some (object_callable_handle 2 5 6), Some (generic_callable_handle 1 7),
          Some (object_callable_handle 2 5 6)]\<rparr>
       = Inr \<lparr>m_Callables =
         [Some (generic_callable_handle 1 8),
          Some (object_callable_handle 2 5 6), Some (generic_callable_handle 1 7),
          Some (object_callable_handle 2 5 6)]\<rparr>
   \<and> detach_member 2 5 6 \<lparr>m_Callables =
         [Some (generic_callable_handle 1 8), Some (generic_callable_handle 1 7),
          Some (object_callable_handle 2 5 6), Some (generic_callable_handle 1 7),
          Some (object_callable_handle 2 5 6)]\<rparr>
       = Inr \<lparr>m_Callables =
         [Some (generic_callable_handle 1 8), Some (generic_callable_handle 1 7),
          Some (generic_callable_handle 1 7),
          Some (object_callable_handle 2 5 6)]\<rparr>"
proof -
  let ?v = "[Some (generic_callable_handle 1 8), Some (generic_callable_handle 1 7),
             Some (object_callable_handle 2 5 6), Some (generic_callable_handle 1 7),
             Some (object_callable_handle 2 5 6)]"
  let ?e = "\<lparr>m_Callables = ?v\<rparr>"
  have g: "\<exists>c\<in>set ?v. compare (generic_callable_handle 1 7) c" by simp
  have m: "\<exists>c\<in>set ?v. compare (object_callable_handle 2 5 6) c" by simp
  from detach_removes_earliest_match [of ?e 1 7 2 5 6] g m
  obtain i k where
    i: "earliest_match (generic_callable_handle 1 7) ?v i"
       "detach 1 7 ?e = Inr (?e\<lparr>m_Callables := take i ?v @ drop (Suc i) ?v\<rparr>)" and
    k: "earliest_match (object_callable_handle 2 5 6) ?v k"
       "detach_member 2 5 6 ?e = Inr (?e\<lparr>m_Callables := take k ?v @ drop (Suc k) ?v\<rparr>)"
    by auto
  have "earliest_match (generic_callable_handle 1 7) ?v 1"
    by (simp add: earliest_match_def)
  with i(1) have "i = 1" by (rule earliest_match_unique)
  moreover have "earliest_match (object_callable_handle 2 5 6) ?v 2"
    by (simp add: earliest_match_def numeral_2_eq_2 All_less_Suc)
  with k(1) have "k = 2" by (rule earliest_match_unique)
  ultimately show ?thesis using g m i(2) k(2) by (simp add: numeral_2_eq_2)
qed

text \<open>
  C3 (the code departs from it). With no record matching the probe, the empty
  registry included, \<open>detach_all\<close> completes and returns the dispatcher
  unchanged, but \<open>detach\<close> hands the end iterator that \<open>std::find_if\<close>
  returned to \<open>vector::erase\<close>: undefined behaviour, not a no-op.
\<close>

theorem detach_without_match:
  "(\<not> (\<exists>c\<in>set (m_Callables e). compare (generic_callable_handle T callback) c) \<longrightarrow>
      detach T callback e = Inl Erase_past_the_end \<and> detach_all T callback e = Inr e)
   \<and> (\<not> (\<exists>c\<in>set (m_Callables e). compare (object_callable_handle U obj memFn) c) \<longrightarrow>
      detach_member U obj memFn e = Inl Erase_past_the_end
      \<and> detach_all_member U obj memFn e = Inr e)"
  unfolding detach_def detach_member_def detach_all_def detach_all_member_def
  using detach_impl_no_match [of e] detach_all_impl_no_match [of e] by blast

theorem detach_without_match_witness:
  "detach 1 7 \<lparr>m_Callables = []\<rparr> = Inl Erase_past_the_end
   \<and> detach_all 1 7 \<lparr>m_Callables = []\<rparr> = Inr \<lparr>m_Callables = []\<rparr>
   \<and> detach_member 2 5 6 \<lparr>m_Callables = [Some (generic_callable_handle 1 7)]\<rparr>
       = Inl Erase_past_the_end
   \<and> detach_all_member 2 5 6 \<lparr>m_Callables = [Some (generic_callable_handle 1 7)]\<rparr>
       = Inr \<lparr>m_Callables = [Some (generic_callable_handle 1 7)]\<rparr>"
proof -
  have none: "\<not> (\<exists>c\<in>set (m_Callables \<lparr>m_Callables = []\<rparr>).
                  compare (generic_callable_handle 1 7) c)"
    by simp
  have other: "\<not> (\<exists>c\<in>set (m_Callables \<lparr>m_Callables = [Some (generic_callable_handle 1 7)]\<rparr>).
                  compare (object_callable_handle 2 5 6) c)"
    by simp
  from none detach_without_match [of "\<lparr>m_Callables = []\<rparr>" 1 7]
  have "detach 1 7 \<lparr>m_Callables = []\<rparr> = Inl Erase_past_the_end
        \<and> detach_all 1 7 \<lparr>m_Callables = []\<rparr> = Inr \<lparr>m_Callables = []\<rparr>"
    by blast
  moreover from other
    detach_without_match [of "\<lparr>m_Callables = [Some (generic_callable_handle 1 7)]\<rparr>" _ _ 2 5 6]
  have "detach_member 2 5 6 \<lparr>m_Callables = [Some (generic_callable_handle 1 7)]\<rparr>
          = Inl Erase_past_the_end
        \<and> detach_all_member 2 5 6 \<lparr>m_Callables = [Some (generic_callable_handle 1 7)]\<rparr>
          = Inr \<lparr>m_Callables = [Some (generic_callable_handle 1 7)]\<rparr>"
    by blast
  ultimately show ?thesis by blast
qed

text \<open>
  C4. \<open>detach_all\<close> (either overload) completes in every state and leaves
  exactly the records that the probe does not compare equal to, in their
  order: every matching record is removed and no other.
\<close>

theorem detach_all_removes_every_match:
  "detach_all T callback e
     = Inr (e\<lparr>m_Callables :=
              filter (\<lambda>c. \<not> compare (generic_callable_handle T callback) c) (m_Callables e)\<rparr>)
   \<and> detach_all_member U obj memFn e
     = Inr (e\<lparr>m_Callables :=
              filter (\<lambda>c. \<not> compare (object_callable_handle U obj memFn) c) (m_Callables e)\<rparr>)"
  by (simp add: detach_all_def detach_all_member_def detach_all_impl_filter)

subsection \<open>Invocation\<close>

lemma invoke_has_target: "has_target c \<Longrightarrow> invoke env c a m = Inr (call env c a m)"
  by (cases c) simp_all

lemma records_of_Cons:
  "records_of \<lparr>registry = Some h # rest, memory = m\<rparr>
     = read_handle (variables m) h # records_of \<lparr>registry = rest, memory = m\<rparr>"
  by (simp add: records_of_def get_now_def List.map_filter_simps)

lemma records_of_variables:
  "variables m' = variables m
     \<Longrightarrow> records_of \<lparr>registry = hs, memory = m'\<rparr> = records_of \<lparr>registry = hs, memory = m\<rparr>"
  by (simp add: records_of_def)

lemma for_each_callable_sound:
  assumes "list_all (sound_record env (variables m)) hs"
  shows "for_each_callable env hs a m
           = Inr (Completed (fst (foldl (applied env) (a, m)
                                   (records_of \<lparr>registry = hs, memory = m\<rparr>))),
                  snd (foldl (applied env) (a, m) (records_of \<lparr>registry = hs, memory = m\<rparr>)))
         \<and> variables (snd (foldl (applied env) (a, m)
                              (records_of \<lparr>registry = hs, memory = m\<rparr>))) = variables m"
  using assms
proof (induction hs arbitrary: a m)
  case Nil
  then show ?case by (simp add: records_of_def List.map_filter_simps)
next
  case (Cons callable rest)
  from Cons.prems obtain h where h: "callable = Some h"
    and target: "has_target (read_handle (variables m) h)"
    and normal: "returns_normally env (read_handle (variables m) h)"
    by (auto simp: sound_record_def split: option.splits)
  let ?c = "read_handle (variables m) h"
  from normal obtain r a1 m1 where
    ret: "call env ?c a m = Returns r a1 m1" and vars: "variables m1 = variables m"
    unfolding returns_normally_def by blast
  have step: "for_each_callable env (callable # rest) a m = for_each_callable env rest a1 m1"
    using h ret by (simp add: invoke_has_target [OF target])
  have ap: "applied env (a, m) ?c = (a1, m1)"
    using ret by (simp add: applied_def)
  from Cons.prems vars have "list_all (sound_record env (variables m1)) rest" by simp
  note ih = Cons.IH [OF this, of a1]
  have recs: "records_of \<lparr>registry = callable # rest, memory = m\<rparr>
      = ?c # records_of \<lparr>registry = rest, memory = m1\<rparr>"
    using h records_of_variables [OF vars, of rest] by (simp add: records_of_Cons)
  show ?case
    using ih step ap vars by (simp add: recs)
qed

lemma operator_call_sound:
  assumes "list_all (sound_record env (variables (memory p))) (registry p)"
  shows "operator_call env a p
           = Inr (Completed (fst (foldl (applied env) (a, memory p) (records_of p))),
                  p\<lparr>memory := snd (foldl (applied env) (a, memory p) (records_of p))\<rparr>)"
proof -
  have "records_of \<lparr>registry = registry p, memory = memory p\<rparr> = records_of p"
    by (simp add: records_of_def)
  with for_each_callable_sound [OF assms, of a] show ?thesis
    by (simp add: operator_call_def)
qed



lemma call_with_results: "call (with_results g env) c a m = with_result g (call env c a m)"
  by (cases c) (simp_all add: with_results_def)






subsection \<open>Removal in a program\<close>

lemma compPred_in_iff:
  "compPred_in temp p callable
     \<longleftrightarrow> get_now (variables (memory p)) callable = Some (read_handle (variables (memory p)) temp)"
  by (simp add: compPred_in_def compare_iff)

lemma compPred_in_object:
  "compPred_in (stored_object T obj memFn) p callable
     \<longleftrightarrow> callable = Some (stored_object T obj memFn)"
proof (cases callable)
  case None
  then show ?thesis by (simp add: compPred_in_iff get_now_def)
next
  case (Some h)
  then show ?thesis by (cases h) (auto simp: compPred_in_iff get_now_def)
qed

lemma detach_impl_in_Inr:
  assumes "detach_impl_in temp p = Inr p'"
  shows "\<exists>i<length (registry p). compPred_in temp p (registry p ! i)
           \<and> (\<forall>j<i. \<not> compPred_in temp p (registry p ! j))
           \<and> p' = p\<lparr>registry := take i (registry p) @ drop (Suc i) (registry p)\<rparr>"
proof -
  let ?v = "registry p"
  let ?i = "find_if (compPred_in temp p) ?v"
  from assms have lt: "?i < length ?v"
    by (auto simp: detach_impl_in_def erase_def split: if_splits)
  then have "compPred_in temp p (?v ! ?i)" by (rule find_if_hit)
  moreover have "\<forall>j<?i. \<not> compPred_in temp p (?v ! j)" by (simp add: find_if_first)
  moreover from assms lt have "p' = p\<lparr>registry := take ?i ?v @ drop (Suc ?i) ?v\<rparr>"
    by (simp add: detach_impl_in_def erase_def)
  ultimately show ?thesis using lt by blast
qed

lemma detach_impl_in_match:
  assumes "\<exists>callable\<in>set (registry p). compPred_in temp p callable"
  shows "\<exists>p'. detach_impl_in temp p = Inr p'"
proof -
  from assms have "find_if (compPred_in temp p) (registry p) < length (registry p)"
    by (simp add: find_if_lt_iff)
  then show ?thesis by (simp add: detach_impl_in_def erase_def)
qed

lemma detach_impl_in_no_match:
  assumes "\<not> (\<exists>callable\<in>set (registry p). compPred_in temp p callable)"
  shows "detach_impl_in temp p = Inl Erase_past_the_end"
proof -
  from assms have "\<not> find_if (compPred_in temp p) (registry p) < length (registry p)"
    by (simp add: find_if_lt_iff)
  then show ?thesis by (simp add: detach_impl_in_def erase_def)
qed

lemma detach_all_impl_in_filter:
  "detach_all_impl_in temp p
     = Inr (p\<lparr>registry := filter (\<lambda>callable. \<not> compPred_in temp p callable) (registry p)\<rparr>)"
proof -
  obtain v' n where r: "remove_if (compPred_in temp p) (registry p) = (v', n)"
    by (cases "remove_if (compPred_in temp p) (registry p)")
  from remove_if_filter [OF r]
  have "n \<le> length v'"
    and "take n v' = filter (\<lambda>callable. \<not> compPred_in temp p callable) (registry p)"
    by simp_all
  then show ?thesis
    using r by (simp add: detach_all_impl_in_def erase_range_def)
qed


lemma list_all_remove_nth: "list_all P v \<Longrightarrow> list_all P (take i v @ drop (Suc i) v)"
  by (auto simp: list_all_iff dest: in_set_takeD in_set_dropD)

lemma count_list_remove_nth:
  assumes "i < length v" and "v ! i \<noteq> c"
  shows "count_list (take i v @ drop (Suc i) v) c = count_list v c"
proof -
  have "v = take i v @ v ! i # drop (Suc i) v"
    using assms(1) by (rule id_take_nth_drop)
  then have "count_list v c = count_list (take i v @ v ! i # drop (Suc i) v) c"
    by simp
  also have "\<dots> = count_list (take i v @ drop (Suc i) v) c"
    using assms(2) by simp
  finally show ?thesis by simp
qed

lemma operator_call_single:
  assumes "registry p = [Some h]" and "has_target (read_handle (variables (memory p)) h)"
  shows "operator_call env a p
           = after_call p (call env (read_handle (variables (memory p)) h) a (memory p))"
proof (cases "call env (read_handle (variables (memory p)) h) a (memory p)")
  case (Returns r a' m')
  with assms show ?thesis by (simp add: operator_call_def invoke_has_target)
next
  case (Throws a' m')
  with assms show ?thesis by (simp add: operator_call_def invoke_has_target)
next
  case Mutates_dispatcher
  with assms show ?thesis by (simp add: operator_call_def invoke_has_target)
qed

lemma records_of_member:
  assumes "Some h \<in> set (registry p)"
  shows "read_handle (variables (memory p)) h \<in> set (records_of p)"
  using assms by (force simp: records_of_def List.map_filter_def get_now_def)

text \<open>
  Run in a program, \<open>detach\<close> and \<open>detach_all\<close> do to the registry as read
  what the members above do to it.
\<close>

lemma find_if_map: "find_if pred (map g xs) = find_if (\<lambda>x. pred (g x)) xs"
  by (induction xs) simp_all

lemma detach_impl_in_as_read:
  "map_sum id as_read (detach_impl_in temp p)
     = detach_impl (read_handle (variables (memory p)) temp) (as_read p)"
proof -
  let ?g = "get_now (variables (memory p))"
  have pos: "find_if (compPred (read_handle (variables (memory p)) temp)) (map ?g (registry p))
      = find_if (compPred_in temp p) (registry p)"
  proof -
    have "compPred_in temp p
        = (\<lambda>x. compPred (read_handle (variables (memory p)) temp) (?g x))"
      by (rule ext) (simp add: compPred_def compPred_in_def)
    then show ?thesis by (simp add: find_if_map)
  qed
  show ?thesis
    by (simp add: detach_impl_in_def detach_impl_def as_read_def erase_def pos take_map drop_map)
qed

lemma detach_all_impl_in_as_read:
  "map_sum id as_read (detach_all_impl_in temp p)
     = detach_all_impl (read_handle (variables (memory p)) temp) (as_read p)"
  by (simp add: detach_all_impl_in_filter detach_all_impl_filter as_read_def filter_map
        comp_def compPred_in_def)

lemma detach_member_in_one_of_two:
  assumes xy: "x = objA \<and> y = objB \<or> x = objB \<and> y = objA" and ne: "objA \<noteq> objB"
  shows "\<exists>p'. detach_member_in T x f (attach_member_in T objB f (attach_member_in T objA f p))
               = Inr p'
           \<and> memory p' = memory p
           \<and> count_list (registry p') (Some (stored_object T y f))
               = count_list (registry p) (Some (stored_object T y f)) + 1
           \<and> (registry p = [] \<longrightarrow> registry p' = [Some (stored_object T y f)])
           \<and> set (registry p')
               \<subseteq> set (registry (attach_member_in T objB f (attach_member_in T objA f p)))"
proof -
  let ?a = "Some (stored_object T objA f)"
  let ?b = "Some (stored_object T objB f)"
  let ?x = "Some (stored_object T x f)"
  let ?y = "Some (stored_object T y f)"
  let ?q = "attach_member_in T objB f (attach_member_in T objA f p)"
  let ?v = "registry ?q"
  have v: "?v = registry p @ [?a, ?b]" by (simp add: attach_member_in_def)
  have mem: "memory ?q = memory p" by (simp add: attach_member_in_def)
  from xy have "?x \<in> set ?v" by (auto simp: v)
  then have "\<exists>callable\<in>set ?v. compPred_in (stored_object T x f) ?q callable"
    by (auto simp: compPred_in_object)
  from detach_impl_in_match [OF this] obtain p' where
    p': "detach_impl_in (stored_object T x f) ?q = Inr p'" by blast
  from detach_impl_in_Inr [OF p'] obtain i where
    i: "i < length ?v" and hit: "?v ! i = ?x" and first: "\<forall>j<i. ?v ! j \<noteq> ?x"
    and res: "p' = ?q\<lparr>registry := take i ?v @ drop (Suc i) ?v\<rparr>"
    by (auto simp: compPred_in_object)
  from xy ne have "?x \<noteq> ?y" by auto
  with hit have "?v ! i \<noteq> ?y" by simp
  from count_list_remove_nth [OF i this] res
  have "count_list (registry p') ?y = count_list ?v ?y" by simp
  also from xy ne have "\<dots> = count_list (registry p) ?y + 1" by (auto simp: v)
  finally have cnt: "count_list (registry p') ?y = count_list (registry p) ?y + 1" .
  have fresh: "registry p' = [?y]" if empty: "registry p = []"
  proof -
    from empty have v2: "?v = [?a, ?b]" by (simp add: v)
    from xy show ?thesis
    proof
      assume A: "x = objA \<and> y = objB"
      with first v2 have "\<not> 0 < i" by auto
      then have "i = 0" by simp
      with res v2 A show ?thesis by simp
    next
      assume B: "x = objB \<and> y = objA"
      from i v2 have "i < 2" by simp
      moreover have "i \<noteq> 0"
      proof
        assume "i = 0"
        with hit v2 B have "objA = objB" by simp
        with ne show False by simp
      qed
      ultimately have "i = 1" by simp
      with res v2 B show ?thesis by simp
    qed
  qed
  have "set (registry p') \<subseteq> set ?v"
    using res by (auto dest: in_set_takeD in_set_dropD)
  with p' res mem cnt fresh show ?thesis
    by (auto simp: detach_member_in_def)
qed

lemma other_binding_invoked:
  assumes xy: "x = objA \<and> y = objB \<or> x = objB \<and> y = objA" and ne: "objA \<noteq> objB"
  shows "\<exists>p'. detach_member_in T x f (attach_member_in T objB f (attach_member_in T objA f p))
               = Inr p'
           \<and> memory p' = memory p
           \<and> count_list (registry p') (Some (stored_object T y f))
               = count_list (registry p) (Some (stored_object T y f)) + 1
           \<and> (registry p = [] \<and> y \<noteq> nullptr \<and> f \<noteq> nullptr \<longrightarrow>
                registry p' = [Some (stored_object T y f)]
                \<and> operator_call env a p' = after_call p' (call_mem env T y f a (memory p)))
           \<and> (list_all (sound_record env (variables (memory p)))
                 (registry (attach_member_in T objB f (attach_member_in T objA f p))) \<longrightarrow>
                operator_call env a p'
                  = Inr (Completed (fst (foldl (applied env) (a, memory p) (records_of p'))),
                         p'\<lparr>memory := snd (foldl (applied env) (a, memory p) (records_of p'))\<rparr>)
                \<and> object_callable_handle T y f \<in> set (records_of p'))"
proof -
  let ?q = "attach_member_in T objB f (attach_member_in T objA f p)"
  let ?y = "stored_object T y f"
  from detach_member_in_one_of_two [OF xy ne, of T f p] obtain p' where
    p': "detach_member_in T x f ?q = Inr p'" and mem: "memory p' = memory p"
    and cnt: "count_list (registry p') (Some ?y) = count_list (registry p) (Some ?y) + 1"
    and fresh: "registry p = [] \<longrightarrow> registry p' = [Some ?y]"
    and sub: "set (registry p') \<subseteq> set (registry ?q)"
    by blast
  have single: "registry p' = [Some ?y]
      \<and> operator_call env a p' = after_call p' (call_mem env T y f a (memory p))"
    if "registry p = [] \<and> y \<noteq> nullptr \<and> f \<noteq> nullptr"
  proof -
    from that fresh have r: "registry p' = [Some ?y]" by simp
    from that have "has_target (read_handle (variables (memory p')) ?y)" by simp
    from operator_call_single [OF r this, of env a] r mem show ?thesis by simp
  qed
  have swept: "operator_call env a p'
        = Inr (Completed (fst (foldl (applied env) (a, memory p) (records_of p'))),
               p'\<lparr>memory := snd (foldl (applied env) (a, memory p) (records_of p'))\<rparr>)
      \<and> object_callable_handle T y f \<in> set (records_of p')"
    if "list_all (sound_record env (variables (memory p))) (registry ?q)"
  proof -
    from that sub mem
    have "list_all (sound_record env (variables (memory p'))) (registry p')"
      by (auto simp: list_all_iff)
    from operator_call_sound [OF this, of a] mem
    have run: "operator_call env a p'
        = Inr (Completed (fst (foldl (applied env) (a, memory p) (records_of p'))),
               p'\<lparr>memory := snd (foldl (applied env) (a, memory p) (records_of p'))\<rparr>)"
      by simp
    from cnt have "count_list (registry p') (Some ?y) \<noteq> 0" by simp
    then have "Some ?y \<in> set (registry p')" by (simp add: count_list_0_iff)
    from records_of_member [OF this] have "object_callable_handle T y f \<in> set (records_of p')"
      by simp
    with run show ?thesis by simp
  qed
  from p' mem cnt single swept show ?thesis by blast
qed

text \<open>
  C6. Two bound-method records (of one class \<open>T\<close>) compare equal exactly
  when their object addresses are equal and their member-function pointers are
  equal. So after attaching \<open>(objA, &T::f)\<close> and \<open>(objB, &T::f)\<close> with
  \<open>objA \<noteq> objB\<close>, detaching either binding completes, changes nothing outside
  the registry and removes no record of the other binding. The other binding
  is still invoked: on a dispatcher that held nothing else, \<open>operator()\<close> is
  then exactly the call of the other object's member function on the caller's
  arguments, however that call ends; on any dispatcher whose records have
  targets and return normally, \<open>operator()\<close> applies every remaining record in
  order, the other binding among them.
\<close>

theorem bound_method_identity:
  "(compare (object_callable_handle T obj memFunc) (Some (object_callable_handle T obj' memFunc'))
      \<longleftrightarrow> obj' = obj \<and> memFunc' = memFunc)
   \<and> (objA \<noteq> objB \<longrightarrow>
        (\<exists>p'. detach_member_in T objA f
                 (attach_member_in T objB f (attach_member_in T objA f p)) = Inr p'
            \<and> memory p' = memory p
            \<and> count_list (registry p') (Some (stored_object T objB f))
                = count_list (registry p) (Some (stored_object T objB f)) + 1
            \<and> (registry p = [] \<and> objB \<noteq> nullptr \<and> f \<noteq> nullptr \<longrightarrow>
                 registry p' = [Some (stored_object T objB f)]
                 \<and> operator_call env a p' = after_call p' (call_mem env T objB f a (memory p)))
            \<and> (list_all (sound_record env (variables (memory p)))
                  (registry (attach_member_in T objB f (attach_member_in T objA f p))) \<longrightarrow>
                 operator_call env a p'
                   = Inr (Completed (fst (foldl (applied env) (a, memory p) (records_of p'))),
                          p'\<lparr>memory := snd (foldl (applied env) (a, memory p) (records_of p'))\<rparr>)
                 \<and> object_callable_handle T objB f \<in> set (records_of p')))
      \<and> (\<exists>p'. detach_member_in T objB f
                 (attach_member_in T objB f (attach_member_in T objA f p)) = Inr p'
            \<and> memory p' = memory p
            \<and> count_list (registry p') (Some (stored_object T objA f))
                = count_list (registry p) (Some (stored_object T objA f)) + 1
            \<and> (registry p = [] \<and> objA \<noteq> nullptr \<and> f \<noteq> nullptr \<longrightarrow>
                 registry p' = [Some (stored_object T objA f)]
                 \<and> operator_call env a p' = after_call p' (call_mem env T objA f a (memory p)))
            \<and> (list_all (sound_record env (variables (memory p)))
                  (registry (attach_member_in T objB f (attach_member_in T objA f p))) \<longrightarrow>
                 operator_call env a p'
                   = Inr (Completed (fst (foldl (applied env) (a, memory p) (records_of p'))),
                          p'\<lparr>memory := snd (foldl (applied env) (a, memory p) (records_of p'))\<rparr>)
                 \<and> object_callable_handle T objA f \<in> set (records_of p'))))"
proof (intro conjI impI)
  show "compare (object_callable_handle T obj memFunc)
          (Some (object_callable_handle T obj' memFunc'))
        \<longleftrightarrow> obj' = obj \<and> memFunc' = memFunc"
    by simp
next
  assume ne: "objA \<noteq> objB"
  have "objA = objA \<and> objB = objB \<or> objA = objB \<and> objB = objA" by simp
  from other_binding_invoked [OF this ne, of T f p env a]
  show "\<exists>p'. detach_member_in T objA f
                 (attach_member_in T objB f (attach_member_in T objA f p)) = Inr p'
            \<and> memory p' = memory p
            \<and> count_list (registry p') (Some (stored_object T objB f))
                = count_list (registry p) (Some (stored_object T objB f)) + 1
            \<and> (registry p = [] \<and> objB \<noteq> nullptr \<and> f \<noteq> nullptr \<longrightarrow>
                 registry p' = [Some (stored_object T objB f)]
                 \<and> operator_call env a p' = after_call p' (call_mem env T objB f a (memory p)))
            \<and> (list_all (sound_record env (variables (memory p)))
                  (registry (attach_member_in T objB f (attach_member_in T objA f p))) \<longrightarrow>
                 operator_call env a p'
                   = Inr (Completed (fst (foldl (applied env) (a, memory p) (records_of p'))),
                          p'\<lparr>memory := snd (foldl (applied env) (a, memory p) (records_of p'))\<rparr>)
                 \<and> object_callable_handle T objB f \<in> set (records_of p'))" .
next
  assume ne: "objA \<noteq> objB"
  have "objB = objA \<and> objA = objB \<or> objB = objB \<and> objA = objA" by simp
  from other_binding_invoked [OF this ne, of T f p env a]
  show "\<exists>p'. detach_member_in T objB f
                 (attach_member_in T objB f (attach_member_in T objA f p)) = Inr p'
            \<and> memory p' = memory p
            \<and> count_list (registry p') (Some (stored_object T objA f))
                = count_list (registry p) (Some (stored_object T objA f)) + 1
            \<and> (registry p = [] \<and> objA \<noteq> nullptr \<and> f \<noteq> nullptr \<longrightarrow>
                 registry p' = [Some (stored_object T objA f)]
                 \<and> operator_call env a p' = after_call p' (call_mem env T objA f a (memory p)))
            \<and> (list_all (sound_record env (variables (memory p)))
                  (registry (attach_member_in T objB f (attach_member_in T objA f p))) \<longrightarrow>
                 operator_call env a p'
                   = Inr (Completed (fst (foldl (applied env) (a, memory p) (records_of p'))),
                          p'\<lparr>memory := snd (foldl (applied env) (a, memory p) (records_of p'))\<rparr>)
                 \<and> object_callable_handle T objA f \<in> set (records_of p'))" .
qed

theorem bound_method_identity_witness:
  "(\<exists>p'. detach_member_in 2 5 6
            (attach_member_in 2 9 6 (attach_member_in 2 5 6
               \<lparr>registry = [], memory = \<lparr>variables = (\<lambda>x. 0), state = ([]::nat list)\<rparr>\<rparr>)) = Inr p'
        \<and> registry p' = [Some (stored_object 2 9 6)]
        \<and> operator_call
             \<lparr>call_fn = (\<lambda>T f a m. Returns f a (m\<lparr>state := state m @ [f]\<rparr>)),
              call_mem = (\<lambda>T obj memFunc a m. Throws a (m\<lparr>state := state m @ [obj]\<rparr>))\<rparr>
             (3::nat) p'
           = Inr (Propagated 3, p'\<lparr>memory := \<lparr>variables = (\<lambda>x. 0), state = [9]\<rparr>\<rparr>))
   \<and> (\<exists>p'. detach_member_in 2 9 6
            (attach_member_in 2 9 6 (attach_member_in 2 5 6
               \<lparr>registry = [], memory = \<lparr>variables = (\<lambda>x. 0), state = ([]::nat list)\<rparr>\<rparr>)) = Inr p'
        \<and> registry p' = [Some (stored_object 2 5 6)]
        \<and> operator_call
             \<lparr>call_fn = (\<lambda>T f a m. Returns f a (m\<lparr>state := state m @ [f]\<rparr>)),
              call_mem = (\<lambda>T obj memFunc a m. Throws a (m\<lparr>state := state m @ [obj]\<rparr>))\<rparr>
             (3::nat) p'
           = Inr (Propagated 3, p'\<lparr>memory := \<lparr>variables = (\<lambda>x. 0), state = [5]\<rparr>\<rparr>))"
proof -
  let ?env = "\<lparr>call_fn = (\<lambda>T f a m. Returns f a (m\<lparr>state := state m @ [f]\<rparr>)),
               call_mem = (\<lambda>T obj memFunc a m. Throws a (m\<lparr>state := state m @ [obj]\<rparr>))\<rparr>
              :: (nat, nat list, nat) callees"
  let ?p = "\<lparr>registry = [], memory = \<lparr>variables = (\<lambda>x. 0::nat), state = ([]::nat list)\<rparr>\<rparr>"
  let ?q = "attach_member_in 2 9 6 (attach_member_in 2 5 6 ?p)"
  have ne: "(5::nat) \<noteq> 9" by simp
  have hA: "registry ?p = [] \<and> (9::nat) \<noteq> nullptr \<and> (6::nat) \<noteq> nullptr"
    by (simp add: nullptr_def)
  have hB: "registry ?p = [] \<and> (5::nat) \<noteq> nullptr \<and> (6::nat) \<noteq> nullptr"
    by (simp add: nullptr_def)
  from bound_method_identity [where objA = 5 and objB = 9 and f = 6 and T = 2 and p = ?p
      and env = ?env and a = 3] ne hA hB
  obtain pA pB where
    A: "detach_member_in 2 5 6 ?q = Inr pA" "registry pA = [Some (stored_object 2 9 6)]"
       "operator_call ?env 3 pA = after_call pA (call_mem ?env 2 9 6 3 (memory ?p))" and
    B: "detach_member_in 2 9 6 ?q = Inr pB" "registry pB = [Some (stored_object 2 5 6)]"
       "operator_call ?env 3 pB = after_call pB (call_mem ?env 2 5 6 3 (memory ?p))"
    by blast
  from A(3) have "operator_call ?env 3 pA
      = Inr (Propagated 3, pA\<lparr>memory := \<lparr>variables = (\<lambda>x. 0), state = [9]\<rparr>\<rparr>)"
    by simp
  moreover from B(3) have "operator_call ?env 3 pB
      = Inr (Propagated 3, pB\<lparr>memory := \<lparr>variables = (\<lambda>x. 0), state = [5]\<rparr>\<rparr>)"
    by simp
  ultimately show ?thesis using A(1,2) B(1,2) by blast
qed






subsection \<open>The argument values a record receives\<close>

text \<open>
  C8 (the code departs from it). \<open>operator()\<close> forwards the caller's argument
  objects themselves, with \<open>std::forward<Args>(args)...\<close> inside the loop, and
  \<open>invoke\<close> forwards them again to the callable. The second record is therefore
  called with what the call of the first record left in those objects, not with
  the values the caller supplied: a callable that takes a parameter by value
  moves from the argument, one that takes it by reference may write to it.
\<close>

theorem second_record_receives_what_first_left:
  assumes "registry p = [Some h1, Some h2]"
    and "has_target (read_handle (variables (memory p)) h1)"
    and "call env (read_handle (variables (memory p)) h1) a (memory p) = Returns r a1 m1"
    and "has_target (read_handle (variables m1) h2)"
  shows "operator_call env a p = after_call p (call env (read_handle (variables m1) h2) a1 m1)"
proof (cases "call env (read_handle (variables m1) h2) a1 m1")
  case (Returns r2 a2 m2)
  with assms show ?thesis by (simp add: operator_call_def invoke_has_target)
next
  case (Throws a2 m2)
  with assms show ?thesis by (simp add: operator_call_def invoke_has_target)
next
  case Mutates_dispatcher
  with assms show ?thesis by (simp add: operator_call_def invoke_has_target)
qed

theorem second_record_receives_what_first_left_witness:
  "operator_call
     \<lparr>call_fn = (\<lambda>T f a m. Returns () (if f = 1 then 0 else a) (m\<lparr>state := state m @ [a]\<rparr>)),
      call_mem = (\<lambda>T obj memFunc a m. Returns () a m)\<rparr>
     (5::nat)
     \<lparr>registry = [Some (stored_generic 2 (Held 1)), Some (stored_generic 2 (Held 2))],
      memory = \<lparr>variables = (\<lambda>x. 0), state = ([]::nat list)\<rparr>\<rparr>
   = Inr (Completed 0,
          \<lparr>registry = [Some (stored_generic 2 (Held 1)), Some (stored_generic 2 (Held 2))],
           memory = \<lparr>variables = (\<lambda>x. 0), state = [5, 0]\<rparr>\<rparr>)"
proof -
  let ?env = "\<lparr>call_fn = (\<lambda>T f a m. Returns () (if f = 1 then 0 else a)
                                      (m\<lparr>state := state m @ [a]\<rparr>)),
               call_mem = (\<lambda>T obj memFunc a m. Returns () a m)\<rparr>
              :: (nat, nat list, unit) callees"
  let ?m = "\<lparr>variables = (\<lambda>x. 0::nat), state = ([]::nat list)\<rparr>"
  let ?m1 = "\<lparr>variables = (\<lambda>x. 0::nat), state = [5::nat]\<rparr>"
  let ?p = "\<lparr>registry = [Some (stored_generic 2 (Held 1)), Some (stored_generic 2 (Held 2))],
             memory = ?m\<rparr>"
  have reg: "registry ?p = [Some (stored_generic 2 (Held 1)), Some (stored_generic 2 (Held 2))]"
    by simp
  have t1: "has_target (read_handle (variables (memory ?p)) (stored_generic 2 (Held 1)))"
    by (simp add: nullptr_def)
  have first: "call ?env (read_handle (variables (memory ?p)) (stored_generic 2 (Held 1))) 5
                 (memory ?p) = Returns () 0 ?m1"
    by simp
  have t2: "has_target (read_handle (variables ?m1) (stored_generic 2 (Held 2)))"
    by (simp add: nullptr_def)
  from second_record_receives_what_first_left [OF reg t1 first t2]
  show ?thesis by simp
qed

subsection \<open>The public operations as a whole\<close>








text \<open>
  C10. The bookkeeping members call nothing. None of \<open>attach\<close>, \<open>detach\<close>,
  \<open>detach_all\<close> (in both overloads) and \<open>clear\<close> takes the callables of the
  program, and each leaves the memory, that is the argument-independent state
  on which a call could have had an effect, exactly as it was: a record is
  stored, compared and erased, never applied. \<open>operator()\<close> is the member that
  applies a registered callable: on a registry of one record it is the call of
  that record's callable on the caller's arguments.
\<close>

theorem bookkeeping_calls_nothing:
  "memory (attach_in X callback p) = memory p
   \<and> memory (attach_member_in T obj memFn p) = memory p
   \<and> memory (clear_in p) = memory p
   \<and> (\<forall>p'. detach_in X callback p = Inr p' \<longrightarrow> memory p' = memory p)
   \<and> (\<forall>p'. detach_member_in T obj memFn p = Inr p' \<longrightarrow> memory p' = memory p)
   \<and> (\<exists>p'. detach_all_in X callback p = Inr p' \<and> memory p' = memory p)
   \<and> (\<exists>p'. detach_all_member_in T obj memFn p = Inr p' \<and> memory p' = memory p)
   \<and> (registry p = [Some h] \<and> has_target (read_handle (variables (memory p)) h) \<longrightarrow>
        operator_call env a p
          = after_call p (call env (read_handle (variables (memory p)) h) a (memory p)))"
proof (intro conjI allI impI)
  show "memory (attach_in X callback p) = memory p" by (simp add: attach_in_def)
  show "memory (attach_member_in T obj memFn p) = memory p" by (simp add: attach_member_in_def)
  show "memory (clear_in p) = memory p" by (simp add: clear_in_def)
  show "\<exists>p'. detach_all_in X callback p = Inr p' \<and> memory p' = memory p"
    by (simp add: detach_all_in_def detach_all_impl_in_filter)
  show "\<exists>p'. detach_all_member_in T obj memFn p = Inr p' \<and> memory p' = memory p"
    by (simp add: detach_all_member_in_def detach_all_impl_in_filter)
next
  fix p' assume "detach_in X callback p = Inr p'"
  then show "memory p' = memory p"
    by (auto simp: detach_in_def dest!: detach_impl_in_Inr)
next
  fix p' assume "detach_member_in T obj memFn p = Inr p'"
  then show "memory p' = memory p"
    by (auto simp: detach_member_in_def dest!: detach_impl_in_Inr)
next
  assume "registry p = [Some h] \<and> has_target (read_handle (variables (memory p)) h)"
  then show "operator_call env a p
      = after_call p (call env (read_handle (variables (memory p)) h) a (memory p))"
    by (simp add: operator_call_single)
qed

theorem bookkeeping_calls_nothing_witness:
  "(\<exists>p'. detach_in 1 (Rvalue 8)
            \<lparr>registry = [Some (stored_generic 2 (Held 8))],
             memory = \<lparr>variables = (\<lambda>x. 7), state = [4::nat]\<rparr>\<rparr> = Inr p'
        \<and> memory p' = \<lparr>variables = (\<lambda>x. 7), state = [4]\<rparr>)
   \<and> operator_call
        \<lparr>call_fn = (\<lambda>T f a m. Returns f a (m\<lparr>state := state m @ [f]\<rparr>)),
         call_mem = (\<lambda>T obj memFunc a m. Returns memFunc a (m\<lparr>state := state m @ [obj]\<rparr>))\<rparr>
        (3::nat)
        \<lparr>registry = [Some (stored_generic 2 (Held 8))],
         memory = \<lparr>variables = (\<lambda>x. 7), state = [4::nat]\<rparr>\<rparr>
      = Inr (Completed 3,
             \<lparr>registry = [Some (stored_generic 2 (Held 8))],
              memory = \<lparr>variables = (\<lambda>x. 7), state = [4, 8]\<rparr>\<rparr>)"
proof -
  let ?env = "\<lparr>call_fn = (\<lambda>T f a m. Returns f a (m\<lparr>state := state m @ [f]\<rparr>)),
               call_mem = (\<lambda>T obj memFunc a m. Returns memFunc a (m\<lparr>state := state m @ [obj]\<rparr>))\<rparr>
              :: (nat, nat list, nat) callees"
  let ?p = "\<lparr>registry = [Some (stored_generic 2 (Held 8))],
             memory = \<lparr>variables = (\<lambda>x. 7::nat), state = [4::nat]\<rparr>\<rparr>"
  note t = bookkeeping_calls_nothing [of 1 "Rvalue 8" ?p _ _ _ "stored_generic 2 (Held 8)" ?env 3]
  have det: "detach_in 1 (Rvalue 8) ?p = Inr (?p\<lparr>registry := []\<rparr>)"
    by (simp add: detach_in_def detach_impl_in_def erase_def compPred_in_def get_now_def
          new_generic_def)
  with t have "memory (?p\<lparr>registry := []\<rparr>) = memory ?p" by blast
  with det have first: "\<exists>p'. detach_in 1 (Rvalue 8) ?p = Inr p'
      \<and> memory p' = \<lparr>variables = (\<lambda>x. 7), state = [4]\<rparr>"
    by simp
  have "registry ?p = [Some (stored_generic 2 (Held 8))]
      \<and> has_target (read_handle (variables (memory ?p)) (stored_generic 2 (Held 8)))"
    by (simp add: nullptr_def)
  with t have "operator_call ?env 3 ?p
      = after_call ?p (call ?env (read_handle (variables (memory ?p)) (stored_generic 2 (Held 8)))
                        3 (memory ?p))"
    by blast
  then have "operator_call ?env 3 ?p
      = Inr (Completed 3,
             \<lparr>registry = [Some (stored_generic 2 (Held 8))],
              memory = \<lparr>variables = (\<lambda>x. 7), state = [4, 8]\<rparr>\<rparr>)"
    by simp
  with first show ?thesis by blast
qed

end
